theory Spec2Isabelle
  imports Complex_Main "HOL-Library.Multiset" "HOL-Library.Product_Lexorder"
begin

section \<open>The swap-quote aggregator of src/core/swap/swap-api.js\<close>

text \<open>
  A shallow embedding of \<^verbatim>\<open>fetchSwapQuote\<close>, \<^verbatim>\<open>pickBestQuote\<close>,
  \<^verbatim>\<open>pickBestError\<close>, \<^verbatim>\<open>rankError\<close> and \<^verbatim>\<open>upgradeQuote\<close>.
  JavaScript objects are records, \<^verbatim>\<open>undefined\<close>/\<^verbatim>\<open>null\<close> is \<open>None\<close>,
  an \<^verbatim>\<open>EdgePluginMap\<close> is a map from plugin ids, and a thrown exception is the
  \<open>Inl\<close> side of a sum.
\<close>

subsection \<open>Errors\<close>

text \<open>
  The \<^verbatim>\<open>name\<close> of a rejection, as \<^verbatim>\<open>rankError\<close> tells the names apart: the six
  members of \<^verbatim>\<open>errorNames\<close> it tests, and any other name.
\<close>

datatype error_name =
    InsufficientFundsError
  | PendingFundsError
  | SwapBelowLimitError
  | SwapAboveLimitError
  | SwapPermissionError
  | SwapCurrencyError
  | OtherErrorName string

record swap_error =
  name :: error_name
  nativeMin :: nat
  nativeMax :: nat
  message :: string

text \<open>
  What a JavaScript computation throws: a \<^verbatim>\<open>TypeError\<close> of the runtime (a property read
  on \<^verbatim>\<open>null\<close> or \<^verbatim>\<open>undefined\<close>, \<^verbatim>\<open>reduce\<close> of an empty array), a plain
  \<^verbatim>\<open>new Error(message)\<close>, what \<^verbatim>\<open>div\<close> throws on a zero divisor, or a provider's
  rejection thrown again.
\<close>

datatype js_error =
    TypeError
  | Error string
  | DivisionByZero
  | Thrown "swap_error option"

subsection \<open>The biggystring helpers\<close>

text \<open>
  The functions \<^verbatim>\<open>div\<close>, \<^verbatim>\<open>gt\<close> and \<^verbatim>\<open>lt\<close> are imported from the package
  biggystring, which is not among the sources. \<^verbatim>\<open>pickBestQuote\<close> calls \<^verbatim>\<open>div\<close> with
  two arguments only, so the division is done at the package's default precision of no
  decimal places: on two integer amounts it returns the integer quotient, truncated, and
  it throws on a zero divisor. \<^verbatim>\<open>gt\<close> and \<^verbatim>\<open>lt\<close> are the strict comparisons of the
  numbers. (The spec, 4.4, describes the rate as an exact quotient; that is not what the
  call computes.)
\<close>

definition div_bs :: "nat \<Rightarrow> nat \<Rightarrow> js_error + nat" where
  "div_bs x y = (if y = 0 then Inl DivisionByZero else Inr (x div y))"

definition gt_bs :: "'a::linorder \<Rightarrow> 'a \<Rightarrow> bool" where
  "gt_bs x y = (y < x)"

definition lt_bs :: "'a::linorder \<Rightarrow> 'a \<Rightarrow> bool" where
  "lt_bs x y = (x < y)"

subsection \<open>Quotes\<close>

text \<open>
  An \<^verbatim>\<open>EdgeSwapPluginQuote\<close>. \<open>quoteRef\<close> is the identity of the object (what
  \<^verbatim>\<open>!==\<close> compares); \<open>closeRejects\<close> says whether the promise returned by its
  \<^verbatim>\<open>close()\<close> rejects.
\<close>

record swap_plugin_quote =
  quoteRef :: nat
  pluginName :: string
  pluginId :: "string option"
  isEstimate :: "bool option"
  fromNativeAmount :: nat
  toNativeAmount :: nat
  quoteId :: "string option"
  closeRejects :: bool

text \<open>
  \<^verbatim>\<open>Array.prototype.reduce\<close> without an initial value, from the first element on: the
  callback may throw, and the first exception ends the reduction.
\<close>

fun reduce_from :: "('a \<Rightarrow> 'a \<Rightarrow> js_error + 'a) \<Rightarrow> 'a \<Rightarrow> 'a list \<Rightarrow> js_error + 'a" where
  "reduce_from f a [] = Inr a"
| "reduce_from f a (b # bs) =
     (case f a b of Inl e \<Rightarrow> Inl e | Inr c \<Rightarrow> reduce_from f c bs)"

text \<open>
  The callback of \<^verbatim>\<open>pickBestQuote\<close>, branch by branch. Only the last branch divides,
  the rate of \<open>a\<close> first.
\<close>

definition pickBestQuote_step ::
  "string option \<Rightarrow> (string \<rightharpoonup> string) \<Rightarrow> swap_plugin_quote \<Rightarrow> swap_plugin_quote
     \<Rightarrow> js_error + swap_plugin_quote"
where
  "pickBestQuote_step preferPluginId promoCodes a b =
     (if Some (pluginName a) = preferPluginId then Inr a
      else if Some (pluginName b) = preferPluginId then Inr b
      else
        let aHasPromo = (promoCodes (pluginName a) \<noteq> None);
            bHasPromo = (promoCodes (pluginName b) \<noteq> None)
        in
        if aHasPromo \<and> \<not> bHasPromo then Inr b
        else if \<not> aHasPromo \<and> bHasPromo then Inr a
        else
          let aIsEstimate = (case isEstimate a of None \<Rightarrow> True | Some e \<Rightarrow> e);
              bIsEstimate = (case isEstimate b of None \<Rightarrow> True | Some e \<Rightarrow> e)
          in
          if aIsEstimate \<and> \<not> bIsEstimate then Inr b
          else if \<not> aIsEstimate \<and> bIsEstimate then Inr a
          else
            (case div_bs (toNativeAmount a) (fromNativeAmount a) of
               Inl e \<Rightarrow> Inl e
             | Inr aRate \<Rightarrow>
                 (case div_bs (toNativeAmount b) (fromNativeAmount b) of
                    Inl e \<Rightarrow> Inl e
                  | Inr bRate \<Rightarrow> Inr (if gt_bs bRate aRate then b else a))))"

text \<open>\<^verbatim>\<open>pickBestQuote\<close>: \<^verbatim>\<open>reduce\<close> throws a \<^verbatim>\<open>TypeError\<close> on the empty array.\<close>

definition pickBestQuote ::
  "swap_plugin_quote list \<Rightarrow> string option \<Rightarrow> (string \<rightharpoonup> string) \<Rightarrow> js_error + swap_plugin_quote"
where
  "pickBestQuote quotes preferPluginId promoCodes =
     (case quotes of
        [] \<Rightarrow> Inl TypeError
      | a # rest \<Rightarrow> reduce_from (pickBestQuote_step preferPluginId promoCodes) a rest)"

subsection \<open>Ranking errors\<close>

text \<open>\<^verbatim>\<open>rankError\<close>; the argument may be \<^verbatim>\<open>null\<close>.\<close>

definition rankError :: "swap_error option \<Rightarrow> int" where
  "rankError error =
     (case error of
        None \<Rightarrow> 0
      | Some e \<Rightarrow>
          if name e = InsufficientFundsError then 6
          else if name e = PendingFundsError then 6
          else if name e = SwapBelowLimitError then 5
          else if name e = SwapAboveLimitError then 4
          else if name e = SwapPermissionError then 3
          else if name e = SwapCurrencyError then 2
          else 1)"

text \<open>
  The callback of \<^verbatim>\<open>pickBestError\<close>. Reading \<^verbatim>\<open>a.name\<close> or \<^verbatim>\<open>b.nativeMin\<close>
  on \<^verbatim>\<open>null\<close> throws a \<^verbatim>\<open>TypeError\<close>.
\<close>

definition pickBestError_step ::
  "swap_error option \<Rightarrow> swap_error option \<Rightarrow> js_error + swap_error option"
where
  "pickBestError_step a b =
     (let diff = rankError a - rankError b in
      if diff > 0 then Inr a
      else if diff < 0 then Inr b
      else
        case a of
          None \<Rightarrow> Inl TypeError
        | Some ea \<Rightarrow>
            if name ea = SwapBelowLimitError then
              (case b of
                 None \<Rightarrow> Inl TypeError
               | Some eb \<Rightarrow> Inr (if lt_bs (nativeMin ea) (nativeMin eb) then a else b))
            else if name ea = SwapAboveLimitError then
              (case b of
                 None \<Rightarrow> Inl TypeError
               | Some eb \<Rightarrow> Inr (if gt_bs (nativeMax ea) (nativeMax eb) then a else b))
            else Inr a)"

definition pickBestError :: "swap_error option list \<Rightarrow> js_error + swap_error option" where
  "pickBestError errors =
     (case errors of
        [] \<Rightarrow> Inl TypeError
      | a # rest \<Rightarrow> reduce_from pickBestError_step a rest)"

subsection \<open>Normalizing the winning quote\<close>

text \<open>An \<^verbatim>\<open>EdgeSwapPlugin\<close>: of its \<^verbatim>\<open>swapInfo\<close> only \<^verbatim>\<open>quoteUri\<close> is read.\<close>

record swap_plugin =
  swapInfo_quoteUri :: "string option"

text \<open>
  The \<^verbatim>\<open>EdgeSwapQuote\<close> built by \<^verbatim>\<open>upgradeQuote\<close>: the fields of the plugin's quote
  (\<open>spread\<close>), then \<^verbatim>\<open>isEstimate\<close>, \<^verbatim>\<open>pluginId\<close> and \<^verbatim>\<open>quoteUri\<close>.
\<close>

record edge_swap_quote =
  spread :: swap_plugin_quote
  resolved_isEstimate :: bool
  resolved_pluginId :: string
  quoteUri :: "string option"

text \<open>
  \<^verbatim>\<open>upgradeQuote\<close>. The registry is the list of its entries in key order; destructuring
  \<^verbatim>\<open>swapPlugins[pluginId]\<close> throws a \<^verbatim>\<open>TypeError\<close> when the id is not a key.
\<close>

definition upgradeQuote ::
  "swap_plugin_quote \<Rightarrow> (string \<times> swap_plugin) list \<Rightarrow> js_error + edge_swap_quote"
where
  "upgradeQuote quote swapPlugins =
     (let isEstimate' = (case isEstimate quote of None \<Rightarrow> True | Some e \<Rightarrow> e);
          pluginId' = (case pluginId quote of None \<Rightarrow> pluginName quote | Some i \<Rightarrow> i)
      in
      case map_of swapPlugins pluginId' of
        None \<Rightarrow> Inl TypeError
      | Some plugin \<Rightarrow>
          let quoteUri' =
                (case (quoteId quote, swapInfo_quoteUri plugin) of
                   (Some qid, Some uri) \<Rightarrow> Some (uri @ qid)
                 | _ \<Rightarrow> None)
          in Inr \<lparr>spread = quote, resolved_isEstimate = isEstimate',
                  resolved_pluginId = pluginId', quoteUri = quoteUri'\<rparr>)"

subsection \<open>Closing the unused quotes\<close>

text \<open>How the promise returned by \<^verbatim>\<open>quote.close()\<close> settles: \<open>Inl\<close> is a rejection.\<close>

definition close_promise :: "swap_plugin_quote \<Rightarrow> js_error + unit" where
  "close_promise quote = (if closeRejects quote then Inl (Error ''close failed'') else Inr ())"

text \<open>\<^verbatim>\<open>promise.catch(() => undefined)\<close>: a rejection becomes a resolved promise.\<close>

definition catch_undefined :: "js_error + unit \<Rightarrow> js_error + unit" where
  "catch_undefined promise = (case promise of Inl e \<Rightarrow> Inr () | Inr u \<Rightarrow> Inr u)"

text \<open>
  The loop over \<^verbatim>\<open>quotes\<close> after the best one is picked: for each quote that is not
  the best one (by identity), \<^verbatim>\<open>close()\<close> is called and its rejection caught; the
  trace lists the quotes closed, each with the state of the promise left behind.
\<close>

fun closeUnused ::
  "swap_plugin_quote \<Rightarrow> swap_plugin_quote list \<Rightarrow> (swap_plugin_quote \<times> (js_error + unit)) list"
where
  "closeUnused bestQuote [] = []"
| "closeUnused bestQuote (quote # quotes) =
     (if quoteRef quote \<noteq> quoteRef bestQuote
      then (quote, catch_undefined (close_promise quote)) # closeUnused bestQuote quotes
      else closeUnused bestQuote quotes)"

subsection \<open>Request options\<close>

text \<open>One entry of the deprecated \<^verbatim>\<open>opts.plugins\<close>.\<close>

record legacy_plugin_options =
  plugin_disabled :: "bool option"
  plugin_promoCode :: "string option"

text \<open>
  \<^verbatim>\<open>EdgeSwapRequestOptions\<close>. An object's keys are unique, so \<^verbatim>\<open>opts.plugins\<close> is
  the list of its entries in key order, and \<^verbatim>\<open>opts.plugins[id]\<close> for a key \<^verbatim>\<open>id\<close>
  is the entry itself.
\<close>

record swap_request_options =
  opt_preferPluginId :: "string option"
  opt_disabled :: "(string \<rightharpoonup> bool) option"
  opt_promoCodes :: "(string \<rightharpoonup> string) option"
  opt_plugins :: "(string \<times> legacy_plugin_options) list option"

text \<open>
  The loop "Upgrade deprecated options": \<^verbatim>\<open>disabled[id] = true\<close> when the entry's
  \<^verbatim>\<open>disabled\<close> is truthy, \<^verbatim>\<open>promoCodes[id] = promoCode\<close> when the entry's
  \<^verbatim>\<open>promoCode\<close> is not null.
\<close>

fun upgradeOptions ::
  "(string \<times> legacy_plugin_options) list \<Rightarrow> (string \<rightharpoonup> bool) \<Rightarrow> (string \<rightharpoonup> string)
     \<Rightarrow> (string \<rightharpoonup> bool) \<times> (string \<rightharpoonup> string)"
where
  "upgradeOptions [] disabled promoCodes = (disabled, promoCodes)"
| "upgradeOptions ((key, entry) # rest) disabled promoCodes =
     upgradeOptions rest
       (if plugin_disabled entry = Some True then disabled(key \<mapsto> True) else disabled)
       (case plugin_promoCode entry of
          None \<Rightarrow> promoCodes
        | Some code \<Rightarrow> promoCodes(key \<mapsto> code))"

text \<open>
  The two flat maps \<^verbatim>\<open>fetchSwapQuote\<close> works with: the defaults \<^verbatim>\<open>{}\<close> of the
  destructuring, then the upgrade loop when \<^verbatim>\<open>opts.plugins\<close> is not null.
\<close>

definition flatOptions ::
  "swap_request_options \<Rightarrow> (string \<rightharpoonup> bool) \<times> (string \<rightharpoonup> string)"
where
  "flatOptions opts =
     (let disabled = (case opt_disabled opts of None \<Rightarrow> Map.empty | Some d \<Rightarrow> d);
          promoCodes = (case opt_promoCodes opts of None \<Rightarrow> Map.empty | Some p \<Rightarrow> p)
      in
      case opt_plugins opts of
        None \<Rightarrow> (disabled, promoCodes)
      | Some entries \<Rightarrow> upgradeOptions entries disabled promoCodes)"

subsection \<open>Fetching the quotes\<close>

record swap_settings =
  enabled :: "bool option"

record account =
  swapSettings :: "string \<rightharpoonup> swap_settings"
  userSettings :: "string \<rightharpoonup> string"

text \<open>
  The part of \<^verbatim>\<open>ai.props.state\<close> that is read: the accounts and the registry
  \<^verbatim>\<open>state.plugins.swap\<close>, as the list of its entries in key order.
\<close>

record core_state =
  accounts :: "string \<rightharpoonup> account"
  plugins_swap :: "(string \<times> swap_plugin) list"

text \<open>One call \<^verbatim>\<open>swapPlugins[pluginId].fetchSwapQuote(request, userSettings, {promoCode})\<close>.\<close>

record fetch_call =
  call_pluginId :: string
  call_userSettings :: "string option"
  call_promoCode :: "string option"

text \<open>
  The loop "Invoke all the active swap plugins" over \<^verbatim>\<open>Object.keys(swapPlugins)\<close>; the
  result lists the calls made, one per promise pushed, in order.
\<close>

fun startRequests ::
  "(string \<rightharpoonup> swap_settings) \<Rightarrow> (string \<rightharpoonup> string) \<Rightarrow> (string \<rightharpoonup> bool) \<Rightarrow> (string \<rightharpoonup> string)
     \<Rightarrow> string list \<Rightarrow> fetch_call list"
where
  "startRequests settings user disabled promoCodes [] = []"
| "startRequests settings user disabled promoCodes (pid # rest) =
     (let enabled' =
            (case settings pid of
               None \<Rightarrow> True
             | Some s \<Rightarrow> (case enabled s of None \<Rightarrow> True | Some e \<Rightarrow> e))
      in
      if \<not> enabled' \<or> disabled pid = Some True
      then startRequests settings user disabled promoCodes rest
      else \<lparr>call_pluginId = pid, call_userSettings = user pid,
             call_promoCode = promoCodes pid\<rparr>
           # startRequests settings user disabled promoCodes rest)"

text \<open>
  What one run of \<^verbatim>\<open>fetchSwapQuote\<close> does: the provider calls issued, the
  \<^verbatim>\<open>close()\<close> calls made, and the quote returned or the exception thrown.
\<close>

record fetch_result =
  issued :: "fetch_call list"
  closes :: "(swap_plugin_quote \<times> (js_error + unit)) list"
  outcome :: "js_error + edge_swap_quote"

text \<open>The handler for resolved quotes: pick the best, close the others, upgrade the best.\<close>

definition onQuotes ::
  "swap_plugin_quote list \<Rightarrow> string option \<Rightarrow> (string \<rightharpoonup> string) \<Rightarrow> (string \<times> swap_plugin) list
     \<Rightarrow> (swap_plugin_quote \<times> (js_error + unit)) list \<times> (js_error + edge_swap_quote)"
where
  "onQuotes quotes prefer promoCodes swapPlugins =
     (case pickBestQuote quotes prefer promoCodes of
        Inl e \<Rightarrow> ([], Inl e)
      | Inr bestQuote \<Rightarrow> (closeUnused bestQuote quotes, upgradeQuote bestQuote swapPlugins))"

text \<open>
  The handler for the case that every quote was rejected. The logging line destructures
  each error first, which throws a \<^verbatim>\<open>TypeError\<close> on \<^verbatim>\<open>null\<close>; then the best
  error is thrown.
\<close>

definition onErrors :: "swap_error option list \<Rightarrow> js_error + edge_swap_quote" where
  "onErrors errors =
     (if list_ex (\<lambda>error. error = None) errors then Inl TypeError
      else case pickBestError errors of
             Inl e \<Rightarrow> Inl e
           | Inr best \<Rightarrow> Inl (Thrown best))"

text \<open>
  \<^verbatim>\<open>fetchSwapQuote\<close>. Modelled from the spec: \<^verbatim>\<open>fuzzyTimeout\<close> of util/promise.js is
  not among the sources; by the spec (4.3) it yields either the ordered list of all
  failures or a list of successful results, and that outcome for the calls made is the
  parameter \<open>race\<close>. \<^verbatim>\<open>log\<close> and \<^verbatim>\<open>bridgifyObject\<close> do not change the result.
\<close>

definition fetchSwapQuote ::
  "core_state \<Rightarrow> string \<Rightarrow> swap_request_options
     \<Rightarrow> (fetch_call list \<Rightarrow> swap_error option list + swap_plugin_quote list) \<Rightarrow> fetch_result"
where
  "fetchSwapQuote state accountId opts race =
     (let (disabled, promoCodes) = flatOptions opts in
      case accounts state accountId of
        None \<Rightarrow> \<lparr>issued = [], closes = [], outcome = Inl TypeError\<rparr>
      | Some account \<Rightarrow>
          (let promises =
                 startRequests (swapSettings account) (userSettings account) disabled promoCodes
                   (map fst (plugins_swap state))
           in
           if length promises < 1
           then \<lparr>issued = promises, closes = [], outcome = Inl (Error ''No swap providers enabled'')\<rparr>
           else
             (case race promises of
                Inr quotes \<Rightarrow>
                  (let (closed', result) =
                         onQuotes quotes (opt_preferPluginId opts) promoCodes (plugins_swap state)
                   in \<lparr>issued = promises, closes = closed', outcome = result\<rparr>)
              | Inl errors \<Rightarrow> \<lparr>issued = promises, closes = [], outcome = onErrors errors\<rparr>)))"

section \<open>Notions used to state the properties\<close>

text \<open>The rate of a quote as the exact fraction \<^verbatim>\<open>toNativeAmount / fromNativeAmount\<close>.\<close>

definition effective_rate :: "swap_plugin_quote \<Rightarrow> rat" where
  "effective_rate q = of_nat (toNativeAmount q) / of_nat (fromNativeAmount q)"

text \<open>\<^verbatim>\<open>isEstimate\<close> with its default \<^verbatim>\<open>true\<close>.\<close>

definition estimate_flag :: "swap_plugin_quote \<Rightarrow> bool" where
  "estimate_flag q = (case isEstimate q of None \<Rightarrow> True | Some e \<Rightarrow> e)"



definition resolved_id :: "swap_plugin_quote \<Rightarrow> string" where
  "resolved_id q = (case pluginId q of None \<Rightarrow> pluginName q | Some i \<Rightarrow> i)"

text \<open>
  The order \<^verbatim>\<open>pickBestError\<close> implements: the rank first, then the smaller
  \<^verbatim>\<open>nativeMin\<close> among below-limit errors and the larger \<^verbatim>\<open>nativeMax\<close> among
  above-limit errors.
\<close>

definition error_key :: "swap_error option \<Rightarrow> int \<times> int" where
  "error_key error =
     (rankError error,
      case error of
        None \<Rightarrow> 0
      | Some e \<Rightarrow>
          if name e = SwapBelowLimitError then - int (nativeMin e)
          else if name e = SwapAboveLimitError then int (nativeMax e)
          else 0)"

text \<open>The account's setting for a plugin: \<^verbatim>\<open>enabled\<close>, with its default \<^verbatim>\<open>true\<close>.\<close>

definition account_enabled :: "account \<Rightarrow> string \<Rightarrow> bool" where
  "account_enabled acct pid =
     (case swapSettings acct pid of
        None \<Rightarrow> True
      | Some s \<Rightarrow> (case enabled s of None \<Rightarrow> True | Some e \<Rightarrow> e))"

section \<open>Example data\<close>

text \<open>A firm quote of plugin x at rate 10 and an estimate of plugin z at rate 1.\<close>

definition quote_x :: swap_plugin_quote where
  "quote_x = \<lparr>quoteRef = 1, pluginName = ''x'', pluginId = None, isEstimate = Some False,
              fromNativeAmount = 1, toNativeAmount = 10, quoteId = Some ''q1'',
              closeRejects = True\<rparr>"

definition quote_z :: swap_plugin_quote where
  "quote_z = \<lparr>quoteRef = 2, pluginName = ''z'', pluginId = None, isEstimate = None,
              fromNativeAmount = 1, toNativeAmount = 1, quoteId = None,
              closeRejects = True\<rparr>"

text \<open>Firm quotes at the rates 3/2, 1/1 and 2/2.\<close>

definition quote_3_2 :: swap_plugin_quote where
  "quote_3_2 = \<lparr>quoteRef = 3, pluginName = ''a'', pluginId = None, isEstimate = Some False,
                fromNativeAmount = 2, toNativeAmount = 3, quoteId = None,
                closeRejects = False\<rparr>"

definition quote_1_1 :: swap_plugin_quote where
  "quote_1_1 = \<lparr>quoteRef = 4, pluginName = ''b'', pluginId = None, isEstimate = Some False,
                fromNativeAmount = 1, toNativeAmount = 1, quoteId = None,
                closeRejects = False\<rparr>"




definition example_plugins :: "(string \<times> swap_plugin) list" where
  "example_plugins =
     [(''x'', \<lparr>swapInfo_quoteUri = Some ''https://x/''\<rparr>),
      (''z'', \<lparr>swapInfo_quoteUri = None\<rparr>)]"

definition example_state :: core_state where
  "example_state =
     \<lparr>accounts = [''acct'' \<mapsto> \<lparr>swapSettings = Map.empty, userSettings = Map.empty\<rparr>],
      plugins_swap = example_plugins\<rparr>"

definition error_below :: "nat \<Rightarrow> swap_error" where
  "error_below n = \<lparr>name = SwapBelowLimitError, nativeMin = n, nativeMax = 0, message = []\<rparr>"

definition error_currency :: swap_error where
  "error_currency = \<lparr>name = SwapCurrencyError, nativeMin = 0, nativeMax = 0, message = []\<rparr>"

text \<open>A race in which every provider called rejects with a currency error.\<close>

definition all_reject :: "fetch_call list \<Rightarrow> swap_error option list + swap_plugin_quote list" where
  "all_reject calls = Inl (map (\<lambda>c. Some error_currency) calls)"

text \<open>Request options with only the flat \<^verbatim>\<open>disabled\<close> map given.\<close>

definition opts_disabled :: "(string \<rightharpoonup> bool) \<Rightarrow> swap_request_options" where
  "opts_disabled d =
     \<lparr>opt_preferPluginId = None, opt_disabled = Some d, opt_promoCodes = None,
      opt_plugins = None\<rparr>"

section \<open>The quote comparator\<close>

subsection \<open>Facts about the reduction\<close>


lemma pickBestQuote_step_total:
  assumes "0 < fromNativeAmount a" and "0 < fromNativeAmount b"
  shows "\<exists>c. pickBestQuote_step pref pc a b = Inr c \<and> (c = a \<or> c = b)"
  using assms by (simp add: pickBestQuote_step_def Let_def div_bs_def)

lemma reduce_step_total:
  "list_all (\<lambda>q. 0 < fromNativeAmount q) (a # qs) \<Longrightarrow>
   \<exists>w. reduce_from (pickBestQuote_step pref pc) a qs = Inr w \<and> w \<in> set (a # qs)"
proof (induction qs arbitrary: a)
  case Nil
  then show ?case by simp
next
  case (Cons q qs)
  obtain c where c: "pickBestQuote_step pref pc a q = Inr c" "c = a \<or> c = q"
    using pickBestQuote_step_total [of a q pref pc] Cons.prems by auto
  then have "list_all (\<lambda>q. 0 < fromNativeAmount q) (c # qs)" using Cons.prems by auto
  then obtain w where "reduce_from (pickBestQuote_step pref pc) c qs = Inr w" "w \<in> set (c # qs)"
    using Cons.IH by blast
  then show ?case using c by auto
qed

lemma pickBestQuote_total:
  assumes "quotes \<noteq> []" and "list_all (\<lambda>q. 0 < fromNativeAmount q) quotes"
  shows "\<exists>w. pickBestQuote quotes pref pc = Inr w \<and> w \<in> set quotes"
proof -
  obtain a qs where q: "quotes = a # qs" using assms(1) by (cases quotes) auto
  show ?thesis
    using reduce_step_total [of a qs pref pc] assms(2) by (simp add: pickBestQuote_def q)
qed

text \<open>
  What the promo branch of the comparator does: of two quotes that are not preferred, of
  which exactly one has a promo code, it returns the one \<^emph>\<open>without\<close> the promo code,
  in either order.
\<close>

lemma pickBestQuote_step_promo:
  assumes "Some (pluginName a) \<noteq> pref" and "Some (pluginName b) \<noteq> pref"
    and "promoCodes (pluginName a) \<noteq> None" and "promoCodes (pluginName b) = None"
  shows "pickBestQuote_step pref promoCodes a b = Inr b
       \<and> pickBestQuote_step pref promoCodes b a = Inr b"
  using assms by (simp add: pickBestQuote_step_def)

text \<open>
  What the last branch does: it compares the truncated integer quotients of the amounts,
  returns the right operand when its quotient is strictly higher and the left operand
  otherwise.
\<close>

lemma pickBestQuote_step_quotient:
  assumes "Some (pluginName a) \<noteq> pref" and "Some (pluginName b) \<noteq> pref"
    and "(promoCodes (pluginName a) = None) = (promoCodes (pluginName b) = None)"
    and "estimate_flag a = estimate_flag b"
    and "0 < fromNativeAmount a" and "0 < fromNativeAmount b"
  shows "pickBestQuote_step pref promoCodes a b =
           Inr (if toNativeAmount a div fromNativeAmount a
                     < toNativeAmount b div fromNativeAmount b then b else a)"
  using assms
  by (auto simp: pickBestQuote_step_def Let_def estimate_flag_def div_bs_def gt_bs_def)

subsection \<open>Promo codes\<close>

text \<open>
  C1. Claimed: of two quotes that are not from the preferred provider, the one whose
  provider has a promo code wins whatever the rates and estimate flags. The code does the
  opposite, against its own comment "Prioritize providers with active promo codes": with a
  promo code for x only, the firm quote of x at rate 10 loses against the estimate of z at
  rate 1, in both orders.
\<close>

theorem pickBestQuote_promo_quote_loses:
  "pickBestQuote [quote_x, quote_z] None [''x'' \<mapsto> ''PROMO''] = Inr quote_z
   \<and> pickBestQuote [quote_z, quote_x] None [''x'' \<mapsto> ''PROMO''] = Inr quote_z"
  by (simp add: pickBestQuote_def pickBestQuote_step_def quote_x_def quote_z_def)

subsection \<open>The rate\<close>

text \<open>
  C3. Claimed: at the last criterion the quote with the strictly higher rate
  \<^verbatim>\<open>toNativeAmount / fromNativeAmount\<close> wins, the rates being compared exactly. The
  code divides at precision 0 and compares the truncated quotients, against its own comment
  "Prefer the best rate": of two firm quotes without preference or promo code, the one at
  the rate 3/2 does not win against the one at the rate 1/1 on its left, because both
  quotients are 1; the pair and the list both keep the quote at 1/1. (That equal results
  of the division keep the left operand does hold.)
\<close>

theorem pickBestQuote_rate_truncated:
  "effective_rate quote_1_1 < effective_rate quote_3_2
   \<and> pickBestQuote_step None Map.empty quote_1_1 quote_3_2 = Inr quote_1_1
   \<and> pickBestQuote [quote_1_1, quote_3_2] None Map.empty = Inr quote_1_1"
  by (simp add: effective_rate_def pickBestQuote_def pickBestQuote_step_def div_bs_def
        gt_bs_def quote_1_1_def quote_3_2_def)

subsection \<open>The preferred provider\<close>

lemma pickBestQuote_step_preferred_left:
  "pluginName a = p \<Longrightarrow> pickBestQuote_step (Some p) pc a b = Inr a"
  by (simp add: pickBestQuote_step_def)

lemma pickBestQuote_step_preferred_right:
  "pluginName a \<noteq> p \<Longrightarrow> pluginName b = p \<Longrightarrow> pickBestQuote_step (Some p) pc a b = Inr b"
  by (simp add: pickBestQuote_step_def)

lemma reduce_step_preferred:
  "list_all (\<lambda>q. 0 < fromNativeAmount q) (a # qs) \<Longrightarrow>
   pluginName a = p \<or> (\<exists>q\<in>set qs. pluginName q = p) \<Longrightarrow>
   \<exists>w. reduce_from (pickBestQuote_step (Some p) pc) a qs = Inr w \<and> w \<in> set (a # qs)
       \<and> pluginName w = p"
proof (induction qs arbitrary: a)
  case Nil
  then show ?case by simp
next
  case (Cons q qs)
  have pos: "0 < fromNativeAmount a" "0 < fromNativeAmount q"
    "list_all (\<lambda>q. 0 < fromNativeAmount q) qs"
    using Cons.prems(1) by simp_all
  show ?case
  proof (cases "pluginName a = p")
    case True
    obtain w where "reduce_from (pickBestQuote_step (Some p) pc) a qs = Inr w"
      "w \<in> set (a # qs)" "pluginName w = p"
      using Cons.IH [of a] pos True by auto
    then show ?thesis using pickBestQuote_step_preferred_left [OF True] by auto
  next
    case na: False
    show ?thesis
    proof (cases "pluginName q = p")
      case True
      obtain w where "reduce_from (pickBestQuote_step (Some p) pc) q qs = Inr w"
        "w \<in> set (q # qs)" "pluginName w = p"
        using Cons.IH [of q] pos True by auto
      then show ?thesis using pickBestQuote_step_preferred_right [OF na True] by auto
    next
      case False
      then have ex: "\<exists>q\<in>set qs. pluginName q = p" using Cons.prems(2) na by auto
      obtain c where c: "pickBestQuote_step (Some p) pc a q = Inr c" "c = a \<or> c = q"
        using pickBestQuote_step_total [OF pos(1,2)] by blast
      then have "list_all (\<lambda>q. 0 < fromNativeAmount q) (c # qs)" using pos by auto
      then obtain w where "reduce_from (pickBestQuote_step (Some p) pc) c qs = Inr w"
        "w \<in> set (c # qs)" "pluginName w = p"
        using Cons.IH [of c] ex by blast
      then show ?thesis using c by auto
    qed
  qed
qed

text \<open>
  C8. When some quote of the list is from the preferred provider (its \<^verbatim>\<open>pluginName\<close>
  is \<^verbatim>\<open>preferPluginId\<close>), \<^verbatim>\<open>pickBestQuote\<close> returns a quote of the list that is from
  the preferred provider, whatever the promo codes, estimate flags and rates. The amounts
  divided by are positive.
\<close>

theorem pickBestQuote_preferred:
  assumes "\<exists>q\<in>set quotes. pluginName q = p"
    and "list_all (\<lambda>q. 0 < fromNativeAmount q) quotes"
  shows "\<exists>w. pickBestQuote quotes (Some p) promoCodes = Inr w \<and> w \<in> set quotes
           \<and> pluginName w = p"
proof (cases quotes)
  case Nil
  then show ?thesis using assms by simp
next
  case (Cons a qs)
  have "pluginName a = p \<or> (\<exists>q\<in>set qs. pluginName q = p)" using assms Cons by auto
  then show ?thesis
    using Cons assms(2) reduce_step_preferred [of a qs p promoCodes]
    by (simp add: pickBestQuote_def)
qed

text \<open>The estimate of z at rate 1 is preferred over the firm quote of x at rate 10.\<close>

theorem pickBestQuote_preferred_witness:
  "pickBestQuote [quote_x, quote_z] (Some ''z'') Map.empty = Inr quote_z"
proof -
  have 1: "\<exists>q\<in>set [quote_x, quote_z]. pluginName q = ''z''" by (simp add: quote_z_def)
  have 2: "list_all (\<lambda>q. 0 < fromNativeAmount q) [quote_x, quote_z]"
    by (simp add: quote_x_def quote_z_def)
  obtain w where w: "pickBestQuote [quote_x, quote_z] (Some ''z'') Map.empty = Inr w"
    "w \<in> set [quote_x, quote_z]" "pluginName w = ''z''"
    using pickBestQuote_preferred [OF 1 2] by blast
  have "pluginName quote_x \<noteq> ''z''" by (simp add: quote_x_def)
  then have "w = quote_z" using w(2,3) by auto
  then show ?thesis using w(1) by simp
qed

subsection \<open>The order of the quotes\<close>








subsection \<open>The field the comparator reads\<close>






section \<open>Request options\<close>

lemma upgradeOptions_lookup:
  "distinct (map fst entries) \<Longrightarrow>
   upgradeOptions entries disabled promoCodes =
     (\<lambda>key. case map_of entries key of
               None \<Rightarrow> disabled key
             | Some e \<Rightarrow> if plugin_disabled e = Some True then Some True else disabled key,
      \<lambda>key. case map_of entries key of
               None \<Rightarrow> promoCodes key
             | Some e \<Rightarrow>
                 (case plugin_promoCode e of None \<Rightarrow> promoCodes key | Some c \<Rightarrow> Some c))"
proof (induction entries arbitrary: disabled promoCodes)
  case Nil
  then show ?case by simp
next
  case (Cons x xs)
  obtain k e where x: "x = (k, e)" by (cases x)
  have d: "distinct (map fst xs)" and k: "map_of xs k = None"
    using Cons.prems x by (auto simp: map_of_eq_None_iff)
  show ?case
    unfolding x upgradeOptions.simps Cons.IH [OF d]
    using k by (auto simp: fun_eq_iff split: option.splits)
qed

text \<open>
  C2, as claimed: the merge never overwrites an entry already present in the flat
  \<^verbatim>\<open>promoCodes\<close>. The loop assigns \<^verbatim>\<open>promoCodes[id]\<close> without looking at it: the
  flat code OLD of x is replaced by the nested code NEW.
\<close>

theorem upgradeOptions_overwrites_counterexample:
  "(Map.empty(''x'' \<mapsto> ''OLD'')) ''x'' = Some ''OLD''
   \<and> snd (upgradeOptions [(''x'', \<lparr>plugin_disabled = None, plugin_promoCode = Some ''NEW''\<rparr>)]
            Map.empty (Map.empty(''x'' \<mapsto> ''OLD''))) ''x'' = Some ''NEW''"
  by simp

text \<open>
  C2, amended: merging the nested \<^verbatim>\<open>opts.plugins\<close> into the flat maps sets
  \<^verbatim>\<open>disabled[id] = true\<close> for every entry whose \<^verbatim>\<open>disabled\<close> is true and sets
  \<^verbatim>\<open>promoCodes[id]\<close> to the entry's code for every entry with a \<^verbatim>\<open>promoCode\<close>,
  replacing a flat code of the same id; it never clears a \<^verbatim>\<open>disabled[id] = true\<close> and
  never removes an entry of \<^verbatim>\<open>promoCodes\<close>; a promo code whose id has no nested
  \<^verbatim>\<open>promoCode\<close> and a \<^verbatim>\<open>disabled\<close> entry whose id has no nested
  \<^verbatim>\<open>disabled = true\<close> are left as they were. The result is the two maps and nothing else.
\<close>

theorem upgradeOptions_merge:
  assumes "distinct (map fst entries)"
    and "upgradeOptions entries disabled promoCodes = (disabled', promoCodes')"
  shows "(\<forall>(key, entry)\<in>set entries.
            (plugin_disabled entry = Some True \<longrightarrow> disabled' key = Some True)
          \<and> (\<forall>code. plugin_promoCode entry = Some code \<longrightarrow> promoCodes' key = Some code))
       \<and> (\<forall>key. disabled key = Some True \<longrightarrow> disabled' key = Some True)
       \<and> (\<forall>key. promoCodes key \<noteq> None \<longrightarrow> promoCodes' key \<noteq> None)
       \<and> (\<forall>key. (\<forall>entry. (key, entry) \<in> set entries \<longrightarrow> plugin_promoCode entry = None)
              \<longrightarrow> promoCodes' key = promoCodes key)
       \<and> (\<forall>key. (\<forall>entry. (key, entry) \<in> set entries \<longrightarrow> plugin_disabled entry \<noteq> Some True)
              \<longrightarrow> disabled' key = disabled key)"
proof -
  have m: "\<And>k e. (k, e) \<in> set entries \<longleftrightarrow> map_of entries k = Some e"
    using assms(1) by simp
  have d: "disabled' = (\<lambda>key. case map_of entries key of
               None \<Rightarrow> disabled key
             | Some e \<Rightarrow> if plugin_disabled e = Some True then Some True else disabled key)"
   and p: "promoCodes' = (\<lambda>key. case map_of entries key of
               None \<Rightarrow> promoCodes key
             | Some e \<Rightarrow>
                 (case plugin_promoCode e of None \<Rightarrow> promoCodes key | Some c \<Rightarrow> Some c))"
    using assms(2) upgradeOptions_lookup [OF assms(1), of disabled promoCodes] by simp_all
  show ?thesis
    unfolding d p by (auto simp: m split: option.splits)
qed

text \<open>
  The nested entry of x disables x and gives it the code NEW; the flat code of y and the
  flat \<^verbatim>\<open>disabled\<close> entry of z stay.
\<close>

theorem upgradeOptions_merge_witness:
  "fst (upgradeOptions [(''x'', \<lparr>plugin_disabled = Some True, plugin_promoCode = Some ''NEW''\<rparr>)]
         [''z'' \<mapsto> True] [''y'' \<mapsto> ''KEEP'']) ''x'' = Some True
   \<and> fst (upgradeOptions [(''x'', \<lparr>plugin_disabled = Some True, plugin_promoCode = Some ''NEW''\<rparr>)]
         [''z'' \<mapsto> True] [''y'' \<mapsto> ''KEEP'']) ''z'' = Some True
   \<and> snd (upgradeOptions [(''x'', \<lparr>plugin_disabled = Some True, plugin_promoCode = Some ''NEW''\<rparr>)]
         [''z'' \<mapsto> True] [''y'' \<mapsto> ''KEEP'']) ''x'' = Some ''NEW''
   \<and> snd (upgradeOptions [(''x'', \<lparr>plugin_disabled = Some True, plugin_promoCode = Some ''NEW''\<rparr>)]
         [''z'' \<mapsto> True] [''y'' \<mapsto> ''KEEP'']) ''y'' = Some ''KEEP''"
proof -
  let ?entries = "[(''x'', \<lparr>plugin_disabled = Some True, plugin_promoCode = Some ''NEW''\<rparr>)]"
  let ?r = "upgradeOptions ?entries [''z'' \<mapsto> True] [''y'' \<mapsto> ''KEEP'']"
  have 1: "distinct (map fst ?entries)" by simp
  have 2: "?r = (fst ?r, snd ?r)" by simp
  have e: "(''x'', \<lparr>plugin_disabled = Some True, plugin_promoCode = Some ''NEW''\<rparr>) \<in> set ?entries"
    by simp
  note t = upgradeOptions_merge [OF 1 2]
  have "fst ?r ''x'' = Some True" using t e by fastforce
  moreover have "snd ?r ''x'' = Some ''NEW''" using t e by fastforce
  moreover have "fst ?r ''z'' = Some True"
  proof -
    have "(Map.empty(''z'' \<mapsto> True)) ''z'' = Some True" by simp
    then show ?thesis using t by blast
  qed
  moreover have "snd ?r ''y'' = Some ''KEEP''"
  proof -
    have "\<forall>entry. (''y'', entry) \<in> set ?entries \<longrightarrow> plugin_promoCode entry = None" by simp
    then have "snd ?r ''y'' = (Map.empty(''y'' \<mapsto> ''KEEP'')) ''y''" using t by blast
    then show ?thesis by simp
  qed
  ultimately show ?thesis by simp
qed

section \<open>Selecting the providers\<close>

lemma startRequests_ids:
  "map call_pluginId (startRequests settings user disabled promoCodes keys) =
     filter (\<lambda>pid. (case settings pid of
                       None \<Rightarrow> True
                     | Some s \<Rightarrow> (case enabled s of None \<Rightarrow> True | Some e \<Rightarrow> e))
                    \<and> disabled pid \<noteq> Some True) keys"
  by (induction keys) (auto simp: Let_def)

lemma count_list_filter_distinct:
  "distinct xs \<Longrightarrow> count_list (filter P xs) x = (if x \<in> set xs \<and> P x then 1 else 0)"
  by (induction xs) auto

lemma fetchSwapQuote_issued:
  assumes "accounts st accountId = Some acct" and "flatOptions opts = (disabled, promoCodes)"
  shows "map call_pluginId (issued (fetchSwapQuote st accountId opts race)) =
           filter (\<lambda>pid. account_enabled acct pid \<and> disabled pid \<noteq> Some True)
             (map fst (plugins_swap st))"
  using assms
    startRequests_ids [of "swapSettings acct" "userSettings acct" disabled promoCodes
      "map fst (plugins_swap st)"]
  by (auto simp: fetchSwapQuote_def Let_def account_enabled_def split: sum.splits prod.splits)

text \<open>
  C6. When the account exists and every plugin of the registry is disabled in the account's
  settings or has \<^verbatim>\<open>disabled[pluginId]\<close> true in the flat map, so that the filter
  leaves no provider, \<^verbatim>\<open>fetchSwapQuote\<close> throws
  \<^verbatim>\<open>Error('No swap providers enabled')\<close> and has called no provider; the race is not
  consulted.
\<close>

theorem fetchSwapQuote_no_providers:
  assumes "accounts st accountId = Some acct" and "flatOptions opts = (disabled, promoCodes)"
    and "\<forall>pid\<in>set (map fst (plugins_swap st)).
           \<not> account_enabled acct pid \<or> disabled pid = Some True"
  shows "fetchSwapQuote st accountId opts race =
           \<lparr>issued = [], closes = [], outcome = Inl (Error ''No swap providers enabled'')\<rparr>"
proof -
  have "map call_pluginId (startRequests (swapSettings acct) (userSettings acct) disabled
          promoCodes (map fst (plugins_swap st))) = []"
    unfolding startRequests_ids using assms(3)
    by (auto simp: account_enabled_def filter_empty_conv)
  then have "startRequests (swapSettings acct) (userSettings acct) disabled promoCodes
          (map fst (plugins_swap st)) = []" by simp
  then show ?thesis using assms(1,2) by (simp add: fetchSwapQuote_def)
qed

text \<open>Both plugins of the example registry are disabled by the request.\<close>

theorem fetchSwapQuote_no_providers_witness:
  "fetchSwapQuote example_state ''acct'' (opts_disabled [''x'' \<mapsto> True, ''z'' \<mapsto> True]) all_reject =
     \<lparr>issued = [], closes = [], outcome = Inl (Error ''No swap providers enabled'')\<rparr>"
proof -
  let ?d = "[''x'' \<mapsto> True, ''z'' \<mapsto> True]"
  have 1: "accounts example_state ''acct'' =
             Some \<lparr>swapSettings = Map.empty, userSettings = Map.empty\<rparr>"
    by (simp add: example_state_def)
  have 2: "flatOptions (opts_disabled ?d) = (?d, Map.empty)"
    by (simp add: flatOptions_def opts_disabled_def)
  have 3: "\<forall>pid\<in>set (map fst (plugins_swap example_state)).
             \<not> account_enabled \<lparr>swapSettings = Map.empty, userSettings = Map.empty\<rparr> pid
             \<or> ?d pid = Some True"
    by (simp add: example_state_def example_plugins_def)
  show ?thesis using fetchSwapQuote_no_providers [OF 1 2 3] .
qed

text \<open>
  C7, as claimed: a provider is called iff it is enabled in the account and not present in
  the flat \<^verbatim>\<open>disabled\<close> map, and a provider present there is never called. The code
  tests the value \<^verbatim>\<open>disabled[pluginId]\<close>, not the presence of the key: with
  \<^verbatim>\<open>disabled = {x: false, z: true}\<close> the provider x is present in the map and is called.
\<close>

theorem fetchSwapQuote_disabled_false_counterexample:
  "fst (flatOptions (opts_disabled [''x'' \<mapsto> False, ''z'' \<mapsto> True])) ''x'' = Some False
   \<and> map call_pluginId
       (issued (fetchSwapQuote example_state ''acct''
          (opts_disabled [''x'' \<mapsto> False, ''z'' \<mapsto> True]) all_reject)) = [''x'']"
  by (simp add: fetchSwapQuote_def flatOptions_def opts_disabled_def example_state_def
        example_plugins_def all_reject_def)

text \<open>
  C7, amended: for every provider P of the registry, \<^verbatim>\<open>fetchSwapQuote\<close> starts exactly
  one fetch for P if P is enabled in the account (the default when the setting is absent)
  and \<^verbatim>\<open>disabled[P]\<close> is not true in the flat map, and none otherwise; a provider with
  \<^verbatim>\<open>disabled[P]\<close> true is never called; the calls are the filtered registry keys in
  order, and they do not depend on how the race ends.
\<close>

theorem fetchSwapQuote_tasks:
  assumes "accounts st accountId = Some acct" and "flatOptions opts = (disabled, promoCodes)"
    and "distinct (map fst (plugins_swap st))"
  shows "map call_pluginId (issued (fetchSwapQuote st accountId opts race)) =
           filter (\<lambda>pid. account_enabled acct pid \<and> disabled pid \<noteq> Some True)
             (map fst (plugins_swap st))
       \<and> (\<forall>pid\<in>set (map fst (plugins_swap st)).
            count_list (map call_pluginId (issued (fetchSwapQuote st accountId opts race))) pid =
              (if account_enabled acct pid \<and> disabled pid \<noteq> Some True then 1 else 0))
       \<and> (\<forall>pid. disabled pid = Some True \<longrightarrow>
            pid \<notin> set (map call_pluginId (issued (fetchSwapQuote st accountId opts race))))
       \<and> (\<forall>race'. issued (fetchSwapQuote st accountId opts race') =
                    issued (fetchSwapQuote st accountId opts race))"
proof -
  note i = fetchSwapQuote_issued [OF assms(1,2)]
  have 1: "\<forall>pid\<in>set (map fst (plugins_swap st)).
            count_list (map call_pluginId (issued (fetchSwapQuote st accountId opts race))) pid =
              (if account_enabled acct pid \<and> disabled pid \<noteq> Some True then 1 else 0)"
    unfolding i using count_list_filter_distinct [OF assms(3)] by simp
  have 2: "\<forall>pid. disabled pid = Some True \<longrightarrow>
            pid \<notin> set (map call_pluginId (issued (fetchSwapQuote st accountId opts race)))"
    unfolding i by simp
  have 3: "\<forall>race'. issued (fetchSwapQuote st accountId opts race') =
                    issued (fetchSwapQuote st accountId opts race)"
    using assms(1,2) by (auto simp: fetchSwapQuote_def Let_def split: sum.splits prod.splits)
  show ?thesis using i 1 2 3 by blast
qed

text \<open>With z disabled by the request, only x is called.\<close>

theorem fetchSwapQuote_tasks_witness:
  "map call_pluginId
     (issued (fetchSwapQuote example_state ''acct'' (opts_disabled [''z'' \<mapsto> True]) all_reject))
   = [''x'']"
proof -
  let ?d = "[''z'' \<mapsto> True]"
  let ?acct = "\<lparr>swapSettings = Map.empty, userSettings = Map.empty\<rparr>"
  have 1: "accounts example_state ''acct'' = Some ?acct"
    by (simp add: example_state_def)
  have 2: "flatOptions (opts_disabled ?d) = (?d, Map.empty)"
    by (simp add: flatOptions_def opts_disabled_def)
  have 3: "distinct (map fst (plugins_swap example_state))"
    by (simp add: example_state_def example_plugins_def)
  have "map call_pluginId
          (issued (fetchSwapQuote example_state ''acct'' (opts_disabled ?d) all_reject)) =
        filter (\<lambda>pid. account_enabled ?acct pid \<and> ?d pid \<noteq> Some True)
          (map fst (plugins_swap example_state))"
    using fetchSwapQuote_tasks [OF 1 2 3] by blast
  also have "\<dots> = [''x'']"
    by (simp add: example_state_def example_plugins_def account_enabled_def)
  finally show ?thesis .
qed

section \<open>Returning the winner and closing the others\<close>

lemma closeUnused_quotes:
  "map fst (closeUnused best quotes) = filter (\<lambda>q. quoteRef q \<noteq> quoteRef best) quotes"
  by (induction quotes) auto

lemma closeUnused_caught: "(q, r) \<in> set (closeUnused best quotes) \<Longrightarrow> r = Inr ()"
  by (induction quotes) (auto simp: catch_undefined_def split: if_splits sum.splits)

lemma upgradeQuote_registered:
  assumes "resolved_id q \<in> fst ` set swapPlugins"
  shows "\<exists>pub. upgradeQuote q swapPlugins = Inr pub \<and> spread pub = q
           \<and> resolved_pluginId pub = resolved_id q"
proof -
  obtain plugin where "map_of swapPlugins (resolved_id q) = Some plugin"
    using assms by (metis map_of_eq_None_iff not_Some_eq)
  then show ?thesis
    by (simp add: upgradeQuote_def resolved_id_def Let_def)
qed

text \<open>
  C9. For a non-empty list of resolved quotes whose plugins are in the registry, the
  success handler returns the upgraded best quote, which is a quote of the list; it calls
  \<^verbatim>\<open>close()\<close> on exactly the quotes that are not the best one, in list order, and never
  on the best one; the calls are made before \<^verbatim>\<open>upgradeQuote\<close> builds the result.
  Every promise left by a \<^verbatim>\<open>close()\<close> is resolved, whether or not the
  \<^verbatim>\<open>close()\<close> rejects, and the result does not depend on it. The amounts divided by
  are positive.
\<close>

theorem onQuotes_closes_unused:
  assumes "quotes \<noteq> []"
    and "list_all (\<lambda>q. 0 < fromNativeAmount q) quotes"
    and "list_all (\<lambda>q. resolved_id q \<in> fst ` set swapPlugins) quotes"
  shows "\<exists>best pub.
           pickBestQuote quotes pref promoCodes = Inr best \<and> best \<in> set quotes
         \<and> onQuotes quotes pref promoCodes swapPlugins = (closeUnused best quotes, Inr pub)
         \<and> spread pub = best
         \<and> map fst (closeUnused best quotes) =
             filter (\<lambda>q. quoteRef q \<noteq> quoteRef best) quotes
         \<and> best \<notin> fst ` set (closeUnused best quotes)
         \<and> (\<forall>c\<in>set (closeUnused best quotes). snd c = Inr ())"
proof -
  obtain best where b: "pickBestQuote quotes pref promoCodes = Inr best"
    and m: "best \<in> set quotes"
    using pickBestQuote_total [OF assms(1,2)] by blast
  have "resolved_id best \<in> fst ` set swapPlugins"
    using m assms(3) by (simp add: list_all_iff)
  then obtain pub where p: "upgradeQuote best swapPlugins = Inr pub" "spread pub = best"
    using upgradeQuote_registered by blast
  have n: "best \<notin> fst ` set (closeUnused best quotes)"
  proof -
    have "fst ` set (closeUnused best quotes) =
          set (filter (\<lambda>q. quoteRef q \<noteq> quoteRef best) quotes)"
      by (metis closeUnused_quotes set_map)
    then show ?thesis by simp
  qed
  have c: "\<forall>c\<in>set (closeUnused best quotes). snd c = Inr ()"
    using closeUnused_caught by fastforce
  show ?thesis
    using b m p n c closeUnused_quotes [of best quotes] by (simp add: onQuotes_def)
qed

text \<open>
  The firm quote of x wins; \<^verbatim>\<open>close()\<close> is called on the quote of z only, and its
  rejection is caught.
\<close>

theorem onQuotes_closes_unused_witness:
  "onQuotes [quote_x, quote_z] None Map.empty example_plugins =
     ([(quote_z, Inr ())],
      Inr \<lparr>spread = quote_x, resolved_isEstimate = False, resolved_pluginId = ''x'',
           quoteUri = Some ''https://x/q1''\<rparr>)"
proof -
  have 1: "[quote_x, quote_z] \<noteq> []" by simp
  have 2: "list_all (\<lambda>q. 0 < fromNativeAmount q) [quote_x, quote_z]"
    by (simp add: quote_x_def quote_z_def)
  have 3: "list_all (\<lambda>q. resolved_id q \<in> fst ` set example_plugins) [quote_x, quote_z]"
    by (simp add: resolved_id_def quote_x_def quote_z_def example_plugins_def)
  obtain best pub where r: "pickBestQuote [quote_x, quote_z] None Map.empty = Inr best"
    "onQuotes [quote_x, quote_z] None Map.empty example_plugins =
       (closeUnused best [quote_x, quote_z], Inr pub)"
    using onQuotes_closes_unused [OF 1 2 3, of None Map.empty] by blast
  have "pickBestQuote [quote_x, quote_z] None Map.empty = Inr quote_x"
    by (simp add: pickBestQuote_def pickBestQuote_step_def quote_x_def quote_z_def)
  then have best: "best = quote_x" using r(1) by simp
  have u: "upgradeQuote quote_x example_plugins =
        Inr \<lparr>spread = quote_x, resolved_isEstimate = False, resolved_pluginId = ''x'',
             quoteUri = Some ''https://x/q1''\<rparr>"
    by (simp add: upgradeQuote_def Let_def quote_x_def example_plugins_def)
  have cl: "closeUnused quote_x [quote_x, quote_z] = [(quote_z, Inr ())]"
    by (simp add: catch_undefined_def close_promise_def quote_x_def quote_z_def)
  have "Inr pub = upgradeQuote quote_x example_plugins"
    using r(2) best \<open>pickBestQuote [quote_x, quote_z] None Map.empty = Inr quote_x\<close>
    by (simp add: onQuotes_def)
  then show ?thesis using r(2) best u cl by simp
qed

section \<open>The error ranker\<close>

lemma rankError_None: "rankError None = 0"
  by (simp add: rankError_def)

lemma rankError_Some_pos: "1 \<le> rankError (Some e)"
  by (simp add: rankError_def)

lemma rankError_5: "(rankError (Some e) = 5) = (name e = SwapBelowLimitError)"
  by (simp add: rankError_def)

lemma rankError_4: "(rankError (Some e) = 4) = (name e = SwapAboveLimitError)"
  by (simp add: rankError_def)

lemma rankError_table:
  "rankError (Some e) =
     (case name e of
        InsufficientFundsError \<Rightarrow> 6 | PendingFundsError \<Rightarrow> 6
      | SwapBelowLimitError \<Rightarrow> 5 | SwapAboveLimitError \<Rightarrow> 4
      | SwapPermissionError \<Rightarrow> 3 | SwapCurrencyError \<Rightarrow> 2
      | OtherErrorName s \<Rightarrow> 1)"
  by (simp add: rankError_def split: error_name.splits)

lemma step_below:
  "name a = SwapBelowLimitError \<Longrightarrow> name b = SwapBelowLimitError \<Longrightarrow>
   pickBestError_step (Some a) (Some b) =
     Inr (if nativeMin a < nativeMin b then Some a else Some b)"
  by (simp add: pickBestError_step_def rankError_def lt_bs_def)

lemma step_above:
  "name a = SwapAboveLimitError \<Longrightarrow> name b = SwapAboveLimitError \<Longrightarrow>
   pickBestError_step (Some a) (Some b) =
     Inr (if nativeMax b < nativeMax a then Some a else Some b)"
  by (simp add: pickBestError_step_def rankError_def gt_bs_def)

lemma step_other_tie:
  "rankError (Some a) = rankError b \<Longrightarrow> name a \<noteq> SwapBelowLimitError \<Longrightarrow>
   name a \<noteq> SwapAboveLimitError \<Longrightarrow> pickBestError_step (Some a) b = Inr (Some a)"
  by (simp add: pickBestError_step_def)

lemma step_less: "rankError a < rankError b \<Longrightarrow> pickBestError_step a b = Inr b"
  by (simp add: pickBestError_step_def)

lemma step_greater: "rankError b < rankError a \<Longrightarrow> pickBestError_step a b = Inr a"
  by (simp add: pickBestError_step_def)

text \<open>A step from an accumulator that is not null does not throw and returns the larger key.\<close>

lemma step_key:
  "\<exists>c. pickBestError_step (Some a) b = Inr c \<and> (c = Some a \<or> c = b) \<and> c \<noteq> None
       \<and> error_key (Some a) \<le> error_key c \<and> error_key b \<le> error_key c"
proof -
  consider "rankError (Some a) < rankError b" | "rankError b < rankError (Some a)"
    | "rankError (Some a) = rankError b" by linarith
  then show ?thesis
  proof cases
    case 1
    then have "b \<noteq> None" using rankError_Some_pos [of a] rankError_None by (cases b) auto
    then show ?thesis using 1 by (simp add: step_less error_key_def)
  next
    case 2
    then show ?thesis by (simp add: step_greater error_key_def)
  next
    case same: 3
    then obtain eb where b: "b = Some eb"
      using rankError_Some_pos [of a] by (cases b) (auto simp: rankError_None)
    consider "name a = SwapBelowLimitError" | "name a = SwapAboveLimitError"
      | "name a \<noteq> SwapBelowLimitError" "name a \<noteq> SwapAboveLimitError" by blast
    then show ?thesis
    proof cases
      case 1
      then have "name eb = SwapBelowLimitError" using same b rankError_5 by metis
      then show ?thesis using 1 same b by (simp add: step_below error_key_def)
    next
      case 2
      then have "name eb = SwapAboveLimitError" using same b rankError_4 by metis
      then show ?thesis using 2 same b by (simp add: step_above error_key_def)
    next
      case 3
      have nb: "name eb \<noteq> SwapBelowLimitError" "name eb \<noteq> SwapAboveLimitError"
        using 3 same b rankError_5 rankError_4 by metis+
      show ?thesis using 3 nb same b by (simp add: step_other_tie error_key_def)
    qed
  qed
qed

lemma reduce_from_key:
  "\<exists>w. reduce_from pickBestError_step (Some a) bs = Inr w \<and> w \<in> set (Some a # bs)
       \<and> (\<forall>e\<in>set (Some a # bs). error_key e \<le> error_key w)"
proof (induction bs arbitrary: a)
  case Nil
  then show ?case by simp
next
  case (Cons b bs)
  obtain c where c: "pickBestError_step (Some a) b = Inr c" "c = Some a \<or> c = b" "c \<noteq> None"
    "error_key (Some a) \<le> error_key c" "error_key b \<le> error_key c"
    using step_key [of a b] by blast
  then obtain ec where ec: "c = Some ec" by auto
  obtain w where w: "reduce_from pickBestError_step (Some ec) bs = Inr w"
    "w \<in> set (Some ec # bs)" "\<forall>e\<in>set (Some ec # bs). error_key e \<le> error_key w"
    using Cons.IH [of ec] by blast
  have "error_key c \<le> error_key w" using w(3) ec by simp
  then have "error_key (Some a) \<le> error_key w" "error_key b \<le> error_key w"
    using c(4,5) by (blast intro: order_trans)+
  moreover have "w \<in> set (Some a # b # bs)" using w(2) c(2) ec by auto
  ultimately show ?case using c(1) ec w(1,3) by simp
qed

lemma pickBestError_key:
  assumes "errors \<noteq> []" and "take 2 errors \<noteq> [None, None]"
  shows "\<exists>w. pickBestError errors = Inr w \<and> w \<in> set errors
           \<and> (\<forall>e\<in>set errors. error_key e \<le> error_key w)"
proof -
  obtain a rest where e: "errors = a # rest" using assms(1) by (cases errors) auto
  show ?thesis
  proof (cases a)
    case (Some ea)
    then show ?thesis using reduce_from_key [of ea rest] by (simp add: pickBestError_def e)
  next
    case None
    show ?thesis
    proof (cases rest)
      case Nil
      then show ?thesis using None e by (simp add: pickBestError_def)
    next
      case (Cons b rest')
      then obtain eb where b: "b = Some eb" using assms(2) e None by (cases b) auto
      have s: "pickBestError_step None (Some eb) = Inr (Some eb)"
        using rankError_Some_pos [of eb] by (simp add: step_less rankError_None)
      obtain w where w: "reduce_from pickBestError_step (Some eb) rest' = Inr w"
        "w \<in> set (Some eb # rest')" "\<forall>e\<in>set (Some eb # rest'). error_key e \<le> error_key w"
        using reduce_from_key [of eb rest'] by blast
      have "error_key None \<le> error_key (Some eb)"
        using rankError_Some_pos [of eb] by (simp add: error_key_def rankError_None)
      then have "error_key None \<le> error_key w"
        using w(3) by (meson list.set_intros(1) order_trans)
      then show ?thesis using w s by (simp add: pickBestError_def e None Cons b)
    qed
  qed
qed

lemma key_rank: "error_key e \<le> error_key w \<Longrightarrow> rankError e \<le> rankError w"
  by (auto simp: error_key_def)

lemma key_below:
  "error_key (Some eb) \<le> error_key (Some ew) \<Longrightarrow> name ew = SwapBelowLimitError \<Longrightarrow>
   name eb = SwapBelowLimitError \<Longrightarrow> nativeMin ew \<le> nativeMin eb"
  by (auto simp: error_key_def rankError_def)

lemma key_above:
  "error_key (Some eb) \<le> error_key (Some ew) \<Longrightarrow> name ew = SwapAboveLimitError \<Longrightarrow>
   name eb = SwapAboveLimitError \<Longrightarrow> nativeMax eb \<le> nativeMax ew"
  by (auto simp: error_key_def rankError_def)

text \<open>
  Two null errors at the head of the list make the tie-break read \<^verbatim>\<open>a.name\<close> on
  \<^verbatim>\<open>null\<close>. Such a list does not reach \<^verbatim>\<open>pickBestError\<close> from
  \<^verbatim>\<open>fetchSwapQuote\<close>, whose logging line destructures every error first.
\<close>

lemma pickBestError_two_nulls: "pickBestError (None # None # rest) = Inl TypeError"
  by (simp add: pickBestError_def pickBestError_step_def rankError_def)

lemma onErrors_null: "None \<in> set errors \<Longrightarrow> onErrors errors = Inl TypeError"
  by (auto simp: onErrors_def list_ex_iff)

text \<open>
  C5. For a non-empty list of failures that does not begin with two null entries (so for
  every list without null entries, and only those reach \<^verbatim>\<open>pickBestError\<close> from
  \<^verbatim>\<open>fetchSwapQuote\<close>), \<^verbatim>\<open>pickBestError\<close> returns one element of the list, of
  maximal rank; when that element
  is a below-limit error no below-limit error of the list has a smaller
  \<^verbatim>\<open>nativeMin\<close>, and when it is an above-limit error none has a larger
  \<^verbatim>\<open>nativeMax\<close>; when no failure is null, \<^verbatim>\<open>fetchSwapQuote\<close> throws exactly that
  element. The ranks are 6 for insufficient and pending funds, 5 below the limit, 4 above
  the limit, 3 for a permission error, 2 for a currency error, 1 for any other name and 0
  for null. Pairwise, two below-limit errors keep the smaller \<^verbatim>\<open>nativeMin\<close>, two
  above-limit errors the larger \<^verbatim>\<open>nativeMax\<close>, and any other tie keeps the left operand.
\<close>

theorem pickBestError_best:
  assumes "errors \<noteq> []" and "take 2 errors \<noteq> [None, None]"
  shows "(\<exists>w. pickBestError errors = Inr w \<and> w \<in> set errors
            \<and> (\<forall>e\<in>set errors. rankError e \<le> rankError w)
            \<and> (\<forall>ew eb. w = Some ew \<and> name ew = SwapBelowLimitError
                   \<and> Some eb \<in> set errors \<and> name eb = SwapBelowLimitError
                  \<longrightarrow> nativeMin ew \<le> nativeMin eb)
            \<and> (\<forall>ew eb. w = Some ew \<and> name ew = SwapAboveLimitError
                   \<and> Some eb \<in> set errors \<and> name eb = SwapAboveLimitError
                  \<longrightarrow> nativeMax eb \<le> nativeMax ew)
            \<and> (None \<notin> set errors \<longrightarrow> onErrors errors = Inl (Thrown w)))
       \<and> rankError None = 0
       \<and> (\<forall>e. rankError (Some e) =
              (case name e of
                 InsufficientFundsError \<Rightarrow> 6 | PendingFundsError \<Rightarrow> 6
               | SwapBelowLimitError \<Rightarrow> 5 | SwapAboveLimitError \<Rightarrow> 4
               | SwapPermissionError \<Rightarrow> 3 | SwapCurrencyError \<Rightarrow> 2
               | OtherErrorName s \<Rightarrow> 1))
       \<and> (\<forall>a b. name a = SwapBelowLimitError \<and> name b = SwapBelowLimitError \<longrightarrow>
              pickBestError_step (Some a) (Some b) =
                Inr (if nativeMin a < nativeMin b then Some a else Some b))
       \<and> (\<forall>a b. name a = SwapAboveLimitError \<and> name b = SwapAboveLimitError \<longrightarrow>
              pickBestError_step (Some a) (Some b) =
                Inr (if nativeMax b < nativeMax a then Some a else Some b))
       \<and> (\<forall>a b. rankError (Some a) = rankError b \<and> name a \<noteq> SwapBelowLimitError
                \<and> name a \<noteq> SwapAboveLimitError \<longrightarrow>
              pickBestError_step (Some a) b = Inr (Some a))"
proof -
  obtain w where w: "pickBestError errors = Inr w" "w \<in> set errors"
    "\<forall>e\<in>set errors. error_key e \<le> error_key w"
    using pickBestError_key [OF assms] by blast
  have 1: "\<forall>e\<in>set errors. rankError e \<le> rankError w" using w(3) key_rank by blast
  have 2: "\<forall>ew eb. w = Some ew \<and> name ew = SwapBelowLimitError
                  \<and> Some eb \<in> set errors \<and> name eb = SwapBelowLimitError
                 \<longrightarrow> nativeMin ew \<le> nativeMin eb" using w(3) key_below by blast
  have 3: "\<forall>ew eb. w = Some ew \<and> name ew = SwapAboveLimitError
                  \<and> Some eb \<in> set errors \<and> name eb = SwapAboveLimitError
                 \<longrightarrow> nativeMax eb \<le> nativeMax ew" using w(3) key_above by blast
  have 4: "None \<notin> set errors \<longrightarrow> onErrors errors = Inl (Thrown w)"
    using w(1) by (auto simp: onErrors_def list_ex_iff)
  have list: "\<exists>w. pickBestError errors = Inr w \<and> w \<in> set errors
            \<and> (\<forall>e\<in>set errors. rankError e \<le> rankError w)
            \<and> (\<forall>ew eb. w = Some ew \<and> name ew = SwapBelowLimitError
                   \<and> Some eb \<in> set errors \<and> name eb = SwapBelowLimitError
                  \<longrightarrow> nativeMin ew \<le> nativeMin eb)
            \<and> (\<forall>ew eb. w = Some ew \<and> name ew = SwapAboveLimitError
                   \<and> Some eb \<in> set errors \<and> name eb = SwapAboveLimitError
                  \<longrightarrow> nativeMax eb \<le> nativeMax ew)
            \<and> (None \<notin> set errors \<longrightarrow> onErrors errors = Inl (Thrown w))"
    using w(1,2) 1 2 3 4 by blast
  have table: "\<forall>e. rankError (Some e) =
              (case name e of
                 InsufficientFundsError \<Rightarrow> 6 | PendingFundsError \<Rightarrow> 6
               | SwapBelowLimitError \<Rightarrow> 5 | SwapAboveLimitError \<Rightarrow> 4
               | SwapPermissionError \<Rightarrow> 3 | SwapCurrencyError \<Rightarrow> 2
               | OtherErrorName s \<Rightarrow> 1)"
    using rankError_table by blast
  have below: "\<forall>a b. name a = SwapBelowLimitError \<and> name b = SwapBelowLimitError \<longrightarrow>
              pickBestError_step (Some a) (Some b) =
                Inr (if nativeMin a < nativeMin b then Some a else Some b)"
    using step_below by blast
  have above: "\<forall>a b. name a = SwapAboveLimitError \<and> name b = SwapAboveLimitError \<longrightarrow>
              pickBestError_step (Some a) (Some b) =
                Inr (if nativeMax b < nativeMax a then Some a else Some b)"
    using step_above by blast
  have other: "\<forall>a b. rankError (Some a) = rankError b \<and> name a \<noteq> SwapBelowLimitError
                \<and> name a \<noteq> SwapAboveLimitError \<longrightarrow>
              pickBestError_step (Some a) b = Inr (Some a)"
    using step_other_tie by blast
  show ?thesis
    using list rankError_None table below above other by (intro conjI)
qed

text \<open>
  Of a null, a below-limit error with minimum 100, a currency error and a below-limit
  error with minimum 50, the last is returned; without the null it is what is thrown.
\<close>

theorem pickBestError_best_witness:
  "pickBestError [None, Some (error_below 100), Some error_currency, Some (error_below 50)] =
     Inr (Some (error_below 50))
   \<and> onErrors [Some (error_below 100), Some error_currency, Some (error_below 50)] =
     Inl (Thrown (Some (error_below 50)))"
proof -
  let ?es = "[None, Some (error_below 100), Some error_currency, Some (error_below 50)]"
  let ?fs = "[Some (error_below 100), Some error_currency, Some (error_below 50)]"
  have 1: "?es \<noteq> []" "take 2 ?es \<noteq> [None, None]" by simp_all
  have 2: "?fs \<noteq> []" "take 2 ?fs \<noteq> [None, None]" by simp_all
  have b: "name (error_below 50) = SwapBelowLimitError" "name (error_below 100) = SwapBelowLimitError"
    "nativeMin (error_below 50) = 50" "nativeMin (error_below 100) = 100"
    "name error_currency = SwapCurrencyError"
    by (simp_all add: error_below_def error_currency_def)
  have r: "rankError None = 0" "rankError (Some (error_below 100)) = 5"
    "rankError (Some error_currency) = 2" "rankError (Some (error_below 50)) = 5"
    by (simp_all add: rankError_def b)
  obtain w where w: "pickBestError ?es = Inr w" "w \<in> set ?es"
    "\<forall>e\<in>set ?es. rankError e \<le> rankError w"
    "\<forall>ew eb. w = Some ew \<and> name ew = SwapBelowLimitError
        \<and> Some eb \<in> set ?es \<and> name eb = SwapBelowLimitError \<longrightarrow> nativeMin ew \<le> nativeMin eb"
    using pickBestError_best [OF 1] by blast
  have "w = Some (error_below 100) \<or> w = Some (error_below 50)"
    using w(2,3) r by auto
  then have we: "w = Some (error_below 50)"
  proof
    assume h: "w = Some (error_below 100)"
    have "Some (error_below 50) \<in> set ?es" by simp
    then have "nativeMin (error_below 100) \<le> nativeMin (error_below 50)"
      using w(4) h b by blast
    then show ?thesis using b by simp
  qed simp
  obtain v where v: "pickBestError ?fs = Inr v"
    "None \<notin> set ?fs \<longrightarrow> onErrors ?fs = Inl (Thrown v)"
    using pickBestError_best [OF 2] by blast
  have "pickBestError ?fs = Inr (Some (error_below 50))"
    by (simp add: pickBestError_def pickBestError_step_def rankError_def lt_bs_def gt_bs_def
          error_below_def error_currency_def)
  then have "onErrors ?fs = Inl (Thrown (Some (error_below 50)))" using v by simp
  then show ?thesis using w(1) we by simp
qed

end
